theory Spec2Isabelle
  imports Complex_Main "HOL-Library.AList" "HOL-Library.Multiset"
begin

section \<open>Data model of \<open>harb/analytics.py\<close>\<close>

text \<open>
  A \<open>Rating\<close> of the rating library is read by the source only through its attributes
  \<open>mu\<close> and \<open>sigma\<close>; Python floats are idealised as reals.
\<close>

record rating =
  mu :: real
  sigma :: real

text \<open>
  The \<open>TrueSkill\<close> environment built by \<open>HorseModel.__init__\<close>: the five hyperparameters.
  Its attributes \<open>mu\<close> and \<open>sigma\<close> are written \<open>env_mu\<close> and \<open>env_sigma\<close> (record fields
  share one name space).
\<close>

record trueskill =
  env_mu :: real
  env_sigma :: real
  beta :: real
  tau :: real
  draw_probability :: real

definition create_rating :: "trueskill \<Rightarrow> rating" where
  "create_rating e = \<lparr>mu = env_mu e, sigma = env_sigma e\<rparr>"

text \<open>
  One value of the dictionary \<open>_ratings\<close>. The source stores under \<open>'rating'\<close> the one-tuple
  \<open>(Rating,)\<close>, the shape of a team of one for the rating library; the one-tuple is
  written here as its only component.
\<close>

record horse =
  rating :: rating
  n_races :: int
  n_wins :: int

text \<open>
  The dictionary \<open>_ratings\<close> as an association list with one entry per key, in insertion
  order; \<open>d[k] = v\<close> is \<open>AList.update k v d\<close> (replace in place, or append).
\<close>

type_synonym 'k rating_dict = "('k \<times> horse) list"

record 'k horse_model =
  ts :: trueskill
  ratings :: "'k rating_dict"

record 'k race =
  selection :: "'k list"
  ranking :: "int list"
  winners :: "'k list"

datatype error = EngineError | IndexError | ValueError | AssertionError

text \<open>
  The rating library is not part of the repository: \<open>self._ts.rate(rating_groups, ranks)\<close>
  is a parameter of the model, a function of the environment, the list of one-player
  teams and the ranks, which raises (\<open>Inl\<close>) or returns the new teams.
\<close>

type_synonym rate_fn = "trueskill \<Rightarrow> rating list \<Rightarrow> int list \<Rightarrow> error + rating list"

section \<open>The rating store\<close>

text \<open>\<open>_create_ratings\<close>: the default factory of the \<open>defaultdict\<close>.\<close>

definition default_horse :: "trueskill \<Rightarrow> horse" where
  "default_horse e = \<lparr>rating = create_rating e, n_races = 0, n_wins = 0\<rparr>"

text \<open>
  \<open>self._ratings[k]\<close> on the \<open>defaultdict\<close>: the stored value, or the default, which is
  then also inserted.
\<close>

definition getitem :: "trueskill \<Rightarrow> 'k rating_dict \<Rightarrow> 'k \<Rightarrow> horse \<times> 'k rating_dict" where
  "getitem e d k =
     (case map_of d k of
        Some h \<Rightarrow> (h, d)
      | None \<Rightarrow> (default_horse e, AList.update k (default_horse e) d))"

text \<open>What a read of \<open>self._ratings[k]\<close> returns, without the insertion.\<close>

definition record_of :: "trueskill \<Rightarrow> 'k rating_dict \<Rightarrow> 'k \<Rightarrow> horse" where
  "record_of e d k = fst (getitem e d k)"

text \<open>\<open>[ratings[r]['rating'] for r in runners]\<close>, threading the insertions.\<close>

fun rating_groups_of ::
  "trueskill \<Rightarrow> 'k rating_dict \<Rightarrow> 'k list \<Rightarrow> rating list \<times> 'k rating_dict" where
  "rating_groups_of e d [] = ([], d)"
| "rating_groups_of e d (r # rs) =
     (let (h, d1) = getitem e d r;
          (gs, d2) = rating_groups_of e d1 rs
      in (rating h # gs, d2))"

text \<open>
  The loop \<open>for i, runner in enumerate(runners)\<close> of \<open>fit_race\<close> and \<open>fit\<close>; \<open>horse\<close>
  is the dictionary's own value, so the assignments change the store.
  \<open>new_ratings[i]\<close> raises \<open>IndexError\<close> when the engine returned too few teams.
\<close>

fun update_runners ::
  "trueskill \<Rightarrow> 'k list \<Rightarrow> rating list \<Rightarrow> nat \<Rightarrow> 'k list \<Rightarrow> 'k rating_dict
     \<Rightarrow> 'k rating_dict \<times> error option" where
  "update_runners e ws new_ratings i [] d = (d, None)"
| "update_runners e ws new_ratings i (runner # rs) d =
     (let (h, d1) = getitem e d runner in
      if i < length new_ratings then
        let h1 = h\<lparr>rating := new_ratings ! i\<rparr>;
            h2 = h1\<lparr>n_races := n_races h1 + 1\<rparr>;
            h3 = (if runner \<in> set ws then h2\<lparr>n_wins := n_wins h2 + 1\<rparr> else h2)
        in update_runners e ws new_ratings (Suc i) rs (AList.update runner h3 d1)
      else (d1, Some IndexError))"

section \<open>\<open>fit_race\<close> and \<open>fit\<close>\<close>

definition fit_race :: "rate_fn \<Rightarrow> 'k horse_model \<Rightarrow> 'k race \<Rightarrow> 'k horse_model \<times> error option" where
  "fit_race rate hm race =
     (let runners = selection race;
          (rating_groups, d1) = rating_groups_of (ts hm) (ratings hm) runners
      in case rate (ts hm) rating_groups (ranking race) of
           Inl err \<Rightarrow> (hm\<lparr>ratings := d1\<rparr>, Some err)
         | Inr new_ratings \<Rightarrow>
             (let (d2, r) = update_runners (ts hm) (winners race) new_ratings 0 runners d1
              in (hm\<lparr>ratings := d2\<rparr>, r)))"

text \<open>
  The state of the loop of \<open>fit\<close>: the store, \<open>stats['n_races']\<close>, and the numbers
  passed to \<open>logging.info\<close> so far.
\<close>

record 'k fit_state =
  fs_ratings :: "'k rating_dict"
  fs_n_races :: int
  fs_log :: "nat list"

text \<open>
  One iteration of the loop \<open>for (i, race) in enumerate(sorted_races)\<close>, with
  \<open>log_incremental = None\<close> (its default). \<open>idx\<close> is the value the outer \<open>enumerate\<close>
  binds to \<open>i\<close>. The inner loop \<open>for i, runner in enumerate(runners)\<close> binds the same
  variable \<open>i\<close>, so the test \<open>i % 100 == 0\<close> after it reads the last runner's index.
\<close>

definition fit_iter ::
  "rate_fn \<Rightarrow> trueskill \<Rightarrow> nat \<Rightarrow> 'k race \<Rightarrow> 'k fit_state \<Rightarrow> 'k fit_state \<times> error option" where
  "fit_iter rate e idx race s =
     (let runners = selection race in
      if length runners < 2 then (s, None)
      else
        let s1 = s\<lparr>fs_n_races := fs_n_races s + 1\<rparr>;
            (rating_groups, d1) = rating_groups_of e (fs_ratings s1) runners
        in case rate e rating_groups (ranking race) of
             Inl err \<Rightarrow> (s1\<lparr>fs_ratings := d1\<rparr>, Some err)
           | Inr new_ratings \<Rightarrow>
               (case update_runners e (winners race) new_ratings 0 runners d1 of
                  (d2, Some err) \<Rightarrow> (s1\<lparr>fs_ratings := d2\<rparr>, Some err)
                | (d2, None) \<Rightarrow>
                    (let i = (if runners = [] then idx else length runners - 1);
                         s2 = s1\<lparr>fs_ratings := d2\<rparr>
                     in (if i mod 100 = 0 then s2\<lparr>fs_log := fs_log s2 @ [i]\<rparr> else s2, None))))"

fun fit_loop ::
  "rate_fn \<Rightarrow> trueskill \<Rightarrow> nat \<Rightarrow> 'k race list \<Rightarrow> 'k fit_state \<Rightarrow> 'k fit_state \<times> error option" where
  "fit_loop rate e idx [] s = (s, None)"
| "fit_loop rate e idx (race # races) s =
     (case fit_iter rate e idx race s of
        (s1, Some err) \<Rightarrow> (s1, Some err)
      | (s1, None) \<Rightarrow> fit_loop rate e (Suc idx) races s1)"

record stats =
  stats_n_races :: int
  stats_n_runners :: int

text \<open>
  \<open>fit\<close> returns the model as the loop left it, the numbers logged, and the statistics
  or the exception that ended the call.
\<close>

definition fit ::
  "rate_fn \<Rightarrow> 'k horse_model \<Rightarrow> 'k race list \<Rightarrow> 'k horse_model \<times> nat list \<times> (error + stats)" where
  "fit rate hm sorted_races =
     (case fit_loop rate (ts hm) 0 sorted_races
             \<lparr>fs_ratings = ratings hm, fs_n_races = 0, fs_log = []\<rparr> of
        (s, Some err) \<Rightarrow> (hm\<lparr>ratings := fs_ratings s\<rparr>, fs_log s, Inl err)
      | (s, None) \<Rightarrow>
          (hm\<lparr>ratings := fs_ratings s\<rparr>, fs_log s,
           Inr \<lparr>stats_n_races = fs_n_races s,
                stats_n_runners = int (length (fs_ratings s))\<rparr>))"

text \<open>A model as \<open>HorseModel(...)\<close> constructs it: no competitor stored yet.\<close>

definition new_model :: "trueskill \<Rightarrow> 'k horse_model" where
  "new_model e = \<lparr>ts = e, ratings = []\<rparr>"

section \<open>Serialisation: \<open>to_dict\<close> and \<open>from_dict\<close>\<close>

text \<open>
  The dictionary under \<open>'ts'\<close> and one element of the list under \<open>'ratings'\<close>, with
  the keys of the source; the keys \<open>mu\<close>, \<open>sigma\<close>, \<open>n_races\<close>, \<open>n_wins\<close> carry a
  prefix here. \<open>Rating(mu, sigma)\<close> is taken to hold the two numbers it is given, and
  \<open>HorseModel(**hm_dict['ts'])\<close> builds the environment from the five entries.

  The source is Python 2, where \<open>self._ratings.items()\<close> lists the entries of the
  dictionary in the order of its hash table, which is not the order of insertion. The
  listing is therefore a parameter \<open>dict_items\<close> of \<open>to_dict\<close>: a function from the
  store to the list of its entries in some order.
\<close>

record ts_dict =
  ts_mu :: real
  ts_sigma :: real
  ts_beta :: real
  ts_tau :: real
  ts_draw_probability :: real

record 'k rating_row =
  runner :: 'k
  row_mu :: real
  row_sigma :: real
  row_n_races :: int
  row_n_wins :: int







section \<open>The Monte Carlo estimator \<open>pwin_mc\<close>\<close>

text \<open>
  \<open>ar.index(x)\<close> on a Python list: the first position of \<open>x\<close>, or \<open>ValueError\<close>
  (\<open>None\<close>) when \<open>x\<close> does not occur.
\<close>

fun list_index :: "'a list \<Rightarrow> 'a \<Rightarrow> nat option" where
  "list_index [] x = None"
| "list_index (y # ys) x = (if y = x then Some 0 else map_option Suc (list_index ys x))"

text \<open>
  \<open>argsort(a)\<close>: the indices of \<open>a\<close> in ascending order of the entries. Entries that
  compare equal keep their index order here; the facts proved below do not depend on how
  ties are ordered.
\<close>

definition argsort :: "real list \<Rightarrow> nat list" where
  "argsort a = sort_key (\<lambda>k. a ! k) [0..<length a]"

text \<open>
  One trial of \<open>pwin_mc\<close> on the column \<open>R[:, i]\<close>:
  \<open>ar = argsort(-array(R[:, i])).tolist()\<close> and
  \<open>[ar.index(x) for x in range(len(ar))]\<close>.
\<close>

definition ranks_of_trial :: "real list \<Rightarrow> nat list option" where
  "ranks_of_trial col =
     (let ar = argsort (map uminus col)
      in those (map (list_index ar) [0..<length ar]))"

text \<open>\<open>get_ratings\<close> reads through the \<open>defaultdict\<close>, so unseen runners are stored.\<close>

definition get_ratings :: "'k horse_model \<Rightarrow> 'k list \<Rightarrow> rating list \<times> 'k horse_model" where
  "get_ratings hm runners =
     (let (rs, d) = rating_groups_of (ts hm) (ratings hm) runners in (rs, hm\<lparr>ratings := d\<rparr>))"

text \<open>
  \<open>pwin_mc\<close> with the number of trials \<open>N\<close> as a parameter (the source fixes
  \<open>N = 1000\<close>). \<open>randn i t\<close> is entry \<open>t\<close> of the vector the \<open>i\<close>-th call
  \<open>randn(N)\<close> returns. Row \<open>i\<close> of \<open>R\<close> holds the samples of competitor \<open>i\<close>;
  each trial replaces column \<open>t\<close> by the ranks; the result is
  \<open>np.sum(R < nwins, 1) / float(N)\<close>. The second component is the model after the call.
\<close>

definition pwin_mc_with ::
  "nat \<Rightarrow> (nat \<Rightarrow> nat \<Rightarrow> real) \<Rightarrow> 'k horse_model \<Rightarrow> 'k list \<Rightarrow> int \<Rightarrow> bool
     \<Rightarrow> (error + real list) \<times> 'k horse_model" where
  "pwin_mc_with N randn hm runners nwins prior_for_unobs =
     (if \<not> prior_for_unobs then (Inl AssertionError, hm)
      else
        let (rs, hm1) = get_ratings hm runners;
            R = map (\<lambda>(i, r). map (\<lambda>t. randn i t * sigma r + mu r) [0..<N]) (enumerate 0 rs);
            trials = map (\<lambda>t. ranks_of_trial (map (\<lambda>row. row ! t) R)) [0..<N]
        in case those trials of
             None \<Rightarrow> (Inl ValueError, hm1)
           | Some ranks \<Rightarrow>
               (Inr (map (\<lambda>i. real (length (filter (\<lambda>rk. int (rk ! i) < nwins) ranks)) / real N)
                      [0..<length runners]), hm1))"

definition pwin_mc ::
  "(nat \<Rightarrow> nat \<Rightarrow> real) \<Rightarrow> 'k horse_model \<Rightarrow> 'k list \<Rightarrow> int \<Rightarrow> bool
     \<Rightarrow> (error + real list) \<times> 'k horse_model" where
  "pwin_mc = pwin_mc_with 1000"

section \<open>The quadrature estimator \<open>pwin_trapz\<close>\<close>

text \<open>
  The numeric libraries are not part of the repository. Their arrays of floats are lists
  of values that are a real number or NaN; an operation with a NaN operand gives NaN
  (infinities and rounding are left out). \<open>norm.cdf\<close> and \<open>norm.pdf\<close> are
  modelled as \<open>scipy.stats\<close> documents them: the distribution function and density of
  the normal distribution with mean \<open>loc\<close> and standard deviation \<open>scale\<close>, and NaN
  when \<open>scale\<close> is not positive. \<open>linspace\<close> and \<open>trapz\<close> follow \<open>numpy\<close>:
  \<open>num\<close> evenly spaced points with both ends, and
  \<open>(dx * (y[1:] + y[:-1]) / 2.0).sum()\<close>.
\<close>

datatype fl = Num real | NaN

fun fl_mult :: "fl \<Rightarrow> fl \<Rightarrow> fl" where
  "fl_mult (Num a) (Num b) = Num (a * b)"
| "fl_mult _ _ = NaN"

fun fl_add :: "fl \<Rightarrow> fl \<Rightarrow> fl" where
  "fl_add (Num a) (Num b) = Num (a + b)"
| "fl_add _ _ = NaN"

text \<open>The distribution function of the standard normal distribution, by its power series.\<close>

definition std_norm_cdf :: "real \<Rightarrow> real" where
  "std_norm_cdf x =
     1 / 2 + (\<Sum>n. (- 1) ^ n * x ^ (2 * n + 1) / (2 ^ n * fact n * real (2 * n + 1))) / sqrt (2 * pi)"

definition norm_cdf :: "real list \<Rightarrow> real \<Rightarrow> real \<Rightarrow> fl list" where
  "norm_cdf xs loc scale =
     map (\<lambda>x. if 0 < scale then Num (std_norm_cdf ((x - loc) / scale)) else NaN) xs"

definition norm_pdf :: "real list \<Rightarrow> real \<Rightarrow> real \<Rightarrow> fl list" where
  "norm_pdf xs loc scale =
     map (\<lambda>x. if 0 < scale
              then Num (exp (- ((x - loc) / scale)\<^sup>2 / 2) / sqrt (2 * pi) / scale)
              else NaN) xs"

definition linspace :: "real \<Rightarrow> real \<Rightarrow> nat \<Rightarrow> real list" where
  "linspace start stop num =
     map (\<lambda>k. start + real k * ((stop - start) / real (num - 1))) [0..<num]"




section \<open>An engine and an environment for concrete runs\<close>

text \<open>
  The theorems below hold for every engine. To run the model on concrete inputs, this
  stand-in is used: it raises when the number of ranks is not the number of teams (as
  the rating library does) and otherwise moves every mean up by one. It is not the
  rating algorithm.
\<close>

definition example_rate :: rate_fn where
  "example_rate e gs rs =
     (if length rs = length gs then Inr (map (\<lambda>g. g\<lparr>mu := mu g + 1\<rparr>) gs) else Inl ValueError)"

text \<open>The default hyperparameters of \<open>HorseModel.__init__\<close>.\<close>

definition default_env :: trueskill where
  "default_env = \<lparr>env_mu = 0, env_sigma = 8, beta = 4, tau = 1 / 10, draw_probability = 1 / 10\<rparr>"

section \<open>Facts about the store operations\<close>

lemma record_of_eq:
  "record_of e d k = (case map_of d k of Some h \<Rightarrow> h | None \<Rightarrow> default_horse e)"
  by (simp add: record_of_def getitem_def split: option.splits)

lemma record_of_update [simp]:
  "record_of e (AList.update k v d) k' = (if k' = k then v else record_of e d k')"
  by (simp add: record_of_eq update_conv')

lemma fst_getitem [simp]: "fst (getitem e d k) = record_of e d k"
  by (simp add: record_of_def)

lemma record_of_getitem [simp]:
  "record_of e (snd (getitem e d k)) k' = record_of e d k'"
  by (auto simp: getitem_def record_of_eq update_conv' split: option.splits)

lemma keys_getitem [simp]:
  "fst ` set (snd (getitem e d k)) = insert k (fst ` set d)"
  by (auto simp: getitem_def dom_update split: option.splits dest: map_of_SomeD
      intro: rev_image_eqI)

lemma distinct_getitem [simp]:
  "distinct (map fst d) \<Longrightarrow> distinct (map fst (snd (getitem e d k)))"
  by (simp add: getitem_def distinct_update split: option.splits)

lemma fst_rating_groups_of [simp]:
  "fst (rating_groups_of e d rs) = map (\<lambda>r. rating (record_of e d r)) rs"
  by (induction rs arbitrary: d) (simp_all add: split_beta Let_def)

lemma record_of_rating_groups_of [simp]:
  "record_of e (snd (rating_groups_of e d rs)) k = record_of e d k"
  by (induction rs arbitrary: d) (simp_all add: split_beta Let_def)

lemma keys_rating_groups_of [simp]:
  "fst ` set (snd (rating_groups_of e d rs)) = fst ` set d \<union> set rs"
  by (induction rs arbitrary: d) (simp_all add: split_beta Let_def)

lemma distinct_rating_groups_of [simp]:
  "distinct (map fst d) \<Longrightarrow> distinct (map fst (snd (rating_groups_of e d rs)))"
  by (induction rs arbitrary: d) (simp_all add: split_beta Let_def)


lemma update_runners_ok:
  "snd (update_runners e ws new i rs d) = None \<longleftrightarrow> rs = [] \<or> i + length rs \<le> length new"
  by (induction rs arbitrary: d i) (auto simp: split_beta Let_def)

lemma keys_update_runners_ok:
  "snd (update_runners e ws new i rs d) = None \<Longrightarrow>
   fst ` set (fst (update_runners e ws new i rs d)) = fst ` set d \<union> set rs"
  by (induction rs arbitrary: d i) (auto simp: split_beta Let_def dom_update split: if_splits)

lemma distinct_update_runners [simp]:
  "distinct (map fst d) \<Longrightarrow> distinct (map fst (fst (update_runners e ws new i rs d)))"
  by (induction rs arbitrary: d i) (auto simp: split_beta Let_def distinct_update)


lemma fit_iter_ok:
  assumes "fit_iter rate e idx race s = (s', None)"
  shows "fs_n_races s' = fs_n_races s + (if 2 \<le> length (selection race) then 1 else 0)"
    and "fst ` set (fs_ratings s') =
         fst ` set (fs_ratings s) \<union> (if 2 \<le> length (selection race) then set (selection race) else {})"
    and "distinct (map fst (fs_ratings s)) \<Longrightarrow> distinct (map fst (fs_ratings s'))"
proof -
  let ?sel = "selection race"
  let ?d1 = "snd (rating_groups_of e (fs_ratings s) ?sel)"
  have upd: "\<exists>new. snd (update_runners e (winners race) new 0 ?sel ?d1) = None \<and>
      fs_ratings s' = fst (update_runners e (winners race) new 0 ?sel ?d1)"
    if "2 \<le> length ?sel"
    using assms that
    by (auto simp: fit_iter_def Let_def split_beta
        split: if_splits sum.splits option.splits prod.splits)
  show "fs_n_races s' = fs_n_races s + (if 2 \<le> length ?sel then 1 else 0)"
    using assms
    by (auto simp: fit_iter_def Let_def split_beta
        split: if_splits sum.splits option.splits prod.splits)
  show "fst ` set (fs_ratings s') =
         fst ` set (fs_ratings s) \<union> (if 2 \<le> length ?sel then set ?sel else {})"
  proof (cases "2 \<le> length ?sel")
    case False
    with assms show ?thesis by (simp add: fit_iter_def Let_def)
  next
    case True
    from upd [OF True] obtain new where
      "snd (update_runners e (winners race) new 0 ?sel ?d1) = None"
      "fs_ratings s' = fst (update_runners e (winners race) new 0 ?sel ?d1)"
      by blast
    with keys_update_runners_ok [of e "winners race" new 0 ?sel ?d1] True
    show ?thesis by auto
  qed
  show "distinct (map fst (fs_ratings s'))" if "distinct (map fst (fs_ratings s))"
  proof (cases "2 \<le> length ?sel")
    case False
    with assms that show ?thesis by (simp add: fit_iter_def Let_def)
  next
    case True
    from upd [OF True] obtain new where
      "fs_ratings s' = fst (update_runners e (winners race) new 0 ?sel ?d1)"
      by blast
    with distinct_update_runners [of ?d1 e "winners race" new 0 ?sel] that
    show ?thesis by simp
  qed
qed

lemma fit_loop_ok:
  "fit_loop rate e idx races s = (s', None) \<Longrightarrow>
   fs_n_races s' = fs_n_races s + int (length (filter (\<lambda>r. 2 \<le> length (selection r)) races)) \<and>
   fst ` set (fs_ratings s') =
     fst ` set (fs_ratings s) \<union>
     (\<Union>r \<in> set (filter (\<lambda>r. 2 \<le> length (selection r)) races). set (selection r)) \<and>
   (distinct (map fst (fs_ratings s)) \<longrightarrow> distinct (map fst (fs_ratings s')))"
proof (induction races arbitrary: s idx)
  case Nil
  then show ?case by simp
next
  case (Cons race races)
  from Cons.prems obtain s1 where
    it: "fit_iter rate e idx race s = (s1, None)" and
    lp: "fit_loop rate e (Suc idx) races s1 = (s', None)"
    by (auto split: prod.splits option.splits)
  from Cons.IH [OF lp] fit_iter_ok [OF it] show ?case
    by auto
qed

text \<open>
  With an engine that never raises and returns at least one team per team it was given,
  \<open>fit\<close> returns its statistics.
\<close>

lemma fit_iter_total:
  assumes "\<forall>gs rs. \<exists>new. rate e gs rs = Inr new \<and> length gs \<le> length new"
  shows "snd (fit_iter rate e idx race s) = None"
proof -
  let ?sel = "selection race"
  let ?gs = "map (\<lambda>r. rating (record_of e (fs_ratings s) r)) ?sel"
  from assms obtain new where
    "rate e ?gs (ranking race) = Inr new" "length ?gs \<le> length new"
    by blast
  then show ?thesis
    using update_runners_ok [of e "winners race" new 0 ?sel
        "snd (rating_groups_of e (fs_ratings s) ?sel)"]
    by (auto simp: fit_iter_def Let_def split_beta split: prod.splits option.splits)
qed

lemma fit_loop_total:
  assumes "\<forall>gs rs. \<exists>new. rate e gs rs = Inr new \<and> length gs \<le> length new"
  shows "snd (fit_loop rate e idx races s) = None"
proof (induction races arbitrary: s idx)
  case Nil
  show ?case by simp
next
  case (Cons race races)
  from assms fit_iter_total [of rate e idx race s] Cons.IH show ?case
    by (auto split: prod.splits option.splits)
qed

lemma fit_returns:
  assumes "\<forall>gs rs. \<exists>new. rate (ts hm) gs rs = Inr new \<and> length gs \<le> length new"
  shows "\<exists>st. snd (snd (fit rate hm races)) = Inr st"
  using assms fit_loop_total [of rate "ts hm" 0 races
      "\<lparr>fs_ratings = ratings hm, fs_n_races = 0, fs_log = []\<rparr>"]
  by (auto simp: fit_def split: prod.splits option.splits)

section \<open>Facts about serialisation\<close>

lemma rating_rebuild [simp]: "\<lparr>mu = mu r, sigma = sigma r\<rparr> = (r::rating)"
  by (cases r) simp

lemma horse_rebuild [simp]:
  "\<lparr>rating = rating h, n_races = n_races h, n_wins = n_wins h\<rparr> = (h::horse)"
  by (cases h) simp

lemma row_rebuild [simp]:
  "\<lparr>runner = runner r, row_mu = row_mu r, row_sigma = row_sigma r,
    row_n_races = row_n_races r, row_n_wins = row_n_wins r\<rparr> = (r::'k rating_row)"
  by (cases r) simp

lemma env_rebuild [simp]:
  "\<lparr>env_mu = env_mu e, env_sigma = env_sigma e, beta = beta e, tau = tau e,
    draw_probability = draw_probability e\<rparr> = (e::trueskill)"
  by (cases e) simp

lemma ts_dict_rebuild [simp]:
  "\<lparr>ts_mu = ts_mu t, ts_sigma = ts_sigma t, ts_beta = ts_beta t, ts_tau = ts_tau t,
    ts_draw_probability = ts_draw_probability t\<rparr> = (t::ts_dict)"
  by (cases t) simp






section \<open>Facts about the Monte Carlo estimator\<close>

lemma list_index_Some:
  "list_index xs x = Some p \<Longrightarrow> p < length xs \<and> xs ! p = x"
  by (induction xs arbitrary: p) (auto split: if_splits)

lemma list_index_in: "x \<in> set xs \<Longrightarrow> \<exists>p. list_index xs x = Some p"
  by (induction xs) auto

lemma list_index_nth:
  "distinct xs \<Longrightarrow> p < length xs \<Longrightarrow> list_index xs (xs ! p) = Some p"
proof (induction xs arbitrary: p)
  case Nil
  then show ?case by simp
next
  case (Cons y ys)
  then show ?case by (cases p) auto
qed

lemma those_map_the:
  "(\<forall>x \<in> set xs. f x \<noteq> None) \<Longrightarrow> those (map f xs) = Some (map (\<lambda>x. the (f x)) xs)"
  by (induction xs) auto

lemma argsort_props:
  "mset (argsort a) = mset [0..<length a]"
  "length (argsort a) = length a"
  "distinct (argsort a)"
  "set (argsort a) = {0..<length a}"
  "sorted (map (\<lambda>k. a ! k) (argsort a))"
  by (simp_all add: argsort_def)

text \<open>The ranks as a total function: the position of each competitor in the sort order.\<close>

lemma ranks_of_trial_eq:
  "ranks_of_trial col =
   Some (map (\<lambda>x. the (list_index (argsort (map uminus col)) x)) [0..<length col])"
proof -
  let ?ar = "argsort (map uminus col)"
  have "\<forall>x \<in> set [0..<length ?ar]. list_index ?ar x \<noteq> None"
    using list_index_in [of _ ?ar] by (auto simp: argsort_props(2,4))
  from those_map_the [OF this] show ?thesis
    by (simp add: ranks_of_trial_def Let_def argsort_props(2))
qed

lemma rank_position:
  assumes "ranks_of_trial col = Some ranks" and "i < length col"
  shows "ranks ! i < length col \<and> argsort (map uminus col) ! (ranks ! i) = i"
proof -
  let ?ar = "argsort (map uminus col)"
  from assms have r: "ranks ! i = the (list_index ?ar i)"
    by (auto simp: ranks_of_trial_eq)
  from assms(2) have "i \<in> set ?ar" by (simp add: argsort_props(4))
  then obtain p where p: "list_index ?ar i = Some p" using list_index_in by fastforce
  from list_index_Some [OF p] r p show ?thesis by (simp add: argsort_props(2))
qed

lemma ranks_length: "ranks_of_trial col = Some ranks \<Longrightarrow> length ranks = length col"
  by (auto simp: ranks_of_trial_eq)

lemma ranks_distinct:
  assumes "ranks_of_trial col = Some ranks"
  shows "distinct ranks"
proof -
  let ?ar = "argsort (map uminus col)"
  have len: "length ranks = length col" by (rule ranks_length [OF assms])
  have "ranks ! i \<noteq> ranks ! j" if "i < length ranks" "j < length ranks" "i \<noteq> j" for i j
  proof
    assume eq: "ranks ! i = ranks ! j"
    from that(1) len have "?ar ! (ranks ! i) = i"
      using rank_position [OF assms, of i] by simp
    moreover from that(2) len have "?ar ! (ranks ! j) = j"
      using rank_position [OF assms, of j] by simp
    ultimately have "i = j" using eq by metis
    with that(3) show False by contradiction
  qed
  then show ?thesis by (simp only: distinct_conv_nth) blast
qed

lemma ranks_perm:
  assumes "ranks_of_trial col = Some ranks"
  shows "mset ranks = mset [0..<length col]"
proof -
  have sub: "set ranks \<subseteq> {0..<length col}"
    using rank_position [OF assms] ranks_length [OF assms]
    by (auto simp: in_set_conv_nth)
  have "card (set ranks) = length col"
    using ranks_distinct [OF assms] ranks_length [OF assms] distinct_card by fastforce
  with sub have "set ranks = {0..<length col}"
    by (simp add: card_subset_eq)
  then have "set ranks = set [0..<length col]" by simp
  moreover have "distinct [0..<length col]" by simp
  ultimately show ?thesis
    using ranks_distinct [OF assms] set_eq_iff_mset_eq_distinct [of ranks "[0..<length col]"]
    by blast
qed

lemma ranks_order:
  assumes "ranks_of_trial col = Some ranks"
    and "i < length col" "j < length col" "col ! i < col ! j"
  shows "ranks ! j < ranks ! i"
proof (rule ccontr)
  let ?ar = "argsort (map uminus col)"
  assume "\<not> ranks ! j < ranks ! i"
  then have le: "ranks ! i \<le> ranks ! j" by simp
  from rank_position [OF assms(1,2)] rank_position [OF assms(1,3)]
  have pi: "ranks ! i < length col" "?ar ! (ranks ! i) = i"
    and pj: "ranks ! j < length col" "?ar ! (ranks ! j) = j" by simp_all
  have "map (\<lambda>k. map uminus col ! k) ?ar ! (ranks ! i) \<le> map (\<lambda>k. map uminus col ! k) ?ar ! (ranks ! j)"
    using sorted_nth_mono [OF argsort_props(5) [of "map uminus col"] le] pj(1)
    by (simp add: argsort_props(2))
  with pi pj assms(2,3) have "- col ! i \<le> - col ! j"
    by (simp add: argsort_props(2))
  with assms(4) show False by simp
qed

lemma perm_count_below:
  assumes "mset ranks = mset [0..<n]" and "i < n"
  shows "card {j. j < n \<and> ranks ! j < ranks ! i} = ranks ! i"
proof -
  from assms(1) have len: "length ranks = n" using mset_eq_length by fastforce
  from assms(1) have st: "set ranks = {0..<n}" using mset_eq_setD by fastforce
  from assms(1) have dist: "distinct ranks"
    using mset_eq_imp_distinct_iff [OF assms(1)] by simp
  let ?A = "{j. j < n \<and> ranks ! j < ranks ! i}"
  have inj: "inj_on (\<lambda>j. ranks ! j) ?A"
    using dist len by (auto simp: inj_on_def nth_eq_iff_index_eq)
  have ri: "ranks ! i < n" using st len assms(2) by (metis atLeastLessThan_iff nth_mem)
  have "(\<lambda>j. ranks ! j) ` ?A = {0..<ranks ! i}"
  proof (intro equalityI subsetI)
    fix k assume "k \<in> (\<lambda>j. ranks ! j) ` ?A"
    then show "k \<in> {0..<ranks ! i}" by auto
  next
    fix k assume "k \<in> {0..<ranks ! i}"
    then have k: "k < ranks ! i" by simp
    with ri have "k \<in> set ranks" by (simp add: st)
    then obtain j where "j < length ranks" "ranks ! j = k" by (auto simp: in_set_conv_nth)
    with k len show "k \<in> (\<lambda>j. ranks ! j) ` ?A" by auto
  qed
  with card_image [OF inj] show ?thesis by simp
qed

lemma count_swap:
  "sum_list (map (\<lambda>i. length (filter (\<lambda>rk. P rk i) rks)) ixs) =
   sum_list (map (\<lambda>rk. length (filter (\<lambda>i. P rk i) ixs)) rks)"
proof (induction rks)
  case Nil
  show ?case by simp
next
  case (Cons rk rks)
  have ind: "sum_list (map (\<lambda>i. if P rk i then 1 else 0) ixs) = length (filter (P rk) ixs)"
    by (induction ixs) simp_all
  have "sum_list (map (\<lambda>i. length (filter (\<lambda>r. P r i) (rk # rks))) ixs) =
        sum_list (map (\<lambda>i. (if P rk i then 1 else 0) + length (filter (\<lambda>r. P r i) rks)) ixs)"
    by (intro arg_cong [where f = sum_list] map_cong) auto
  also have "\<dots> = sum_list (map (\<lambda>i. if P rk i then 1 else 0) ixs) +
                  sum_list (map (\<lambda>i. length (filter (\<lambda>r. P r i) rks)) ixs)"
    by (simp add: sum_list_addf)
  finally show ?case using Cons.IH ind by simp
qed

lemma length_filter_count_list:
  "length (filter (\<lambda>i. f i = z) xs) = count_list (map f xs) z"
  by (induction xs) simp_all

lemma count_list_upt_zero: "0 < n \<Longrightarrow> count_list [0..<n] 0 = 1"
  by (induction n) (simp_all add: count_list_0_iff)

lemma one_winner:
  assumes "mset rk = mset [0..<n]" and "0 < n"
  shows "length (filter (\<lambda>i. rk ! i = 0) [0..<n]) = 1"
proof -
  have len: "length rk = n" using mset_eq_length [OF assms(1)] by simp
  have "length (filter (\<lambda>i. rk ! i = 0) [0..<length rk]) =
        count_list (map (\<lambda>i. rk ! i) [0..<length rk]) 0"
    by (rule length_filter_count_list)
  also have "\<dots> = count_list rk 0" by (simp only: map_nth)
  also have "\<dots> = count_list [0..<n] 0" by (rule mset_eq_length_filter [OF assms(1)])
  also have "\<dots> = 1" by (rule count_list_upt_zero [OF assms(2)])
  finally show ?thesis by (simp only: len)
qed

lemma sum_list_divide:
  "sum_list (map (\<lambda>i. f i / c) xs) = sum_list (map f xs) / (c::real)"
  by (induction xs) (simp_all add: add_divide_distrib)

lemma sum_list_real:
  "sum_list (map (\<lambda>i. real (f i)) xs) = real (sum_list (map f xs))"
  by (induction xs) simp_all

lemma length_get_ratings [simp]: "length (fst (get_ratings hm runners)) = length runners"
  by (simp add: get_ratings_def split_beta)

lemma pwin_mc_with_ranks:
  "\<exists>ranks. length ranks = N \<and>
     (\<forall>rk \<in> set ranks. mset rk = mset [0..<length runners]) \<and>
     fst (pwin_mc_with N randn hm runners nwins True) =
       Inr (map (\<lambda>i. real (length (filter (\<lambda>rk. int (rk ! i) < nwins) ranks)) / real N)
              [0..<length runners])"
proof -
  let ?rs = "fst (get_ratings hm runners)"
  let ?R = "map (\<lambda>(i, r). map (\<lambda>t. randn i t * sigma r + mu r) [0..<N]) (enumerate 0 ?rs)"
  let ?col = "\<lambda>t. map (\<lambda>row. row ! t) ?R"
  let ?trials = "map (\<lambda>t. ranks_of_trial (?col t)) [0..<N]"
  let ?ranks = "map (\<lambda>t. the (ranks_of_trial (?col t))) [0..<N]"
  have lc: "length (?col t) = length runners" for t by simp
  have "\<forall>t \<in> set [0..<N]. ranks_of_trial (?col t) \<noteq> None"
    by (simp add: ranks_of_trial_eq)
  from those_map_the [OF this] have th: "those ?trials = Some ?ranks" .
  have perm: "mset rk = mset [0..<length runners]" if "rk \<in> set ?ranks" for rk
  proof -
    from that obtain t where "rk = the (ranks_of_trial (?col t))" by auto
    moreover obtain r where r: "ranks_of_trial (?col t) = Some r"
      by (simp add: ranks_of_trial_eq)
    ultimately have "rk = r" by simp
    with ranks_perm [OF r] lc [of t] show ?thesis by simp
  qed
  have "fst (pwin_mc_with N randn hm runners nwins True) =
       Inr (map (\<lambda>i. real (length (filter (\<lambda>rk. int (rk ! i) < nwins) ?ranks)) / real N)
              [0..<length runners])"
    unfolding pwin_mc_with_def using th by (simp add: split_beta Let_def)
  moreover have "length ?ranks = N" by simp
  ultimately show ?thesis using perm by blast
qed

lemma pwin_mc_with_no_runners:
  "fst (pwin_mc_with N randn hm [] nwins True) = Inr []"
  using pwin_mc_with_ranks [of N "[]" randn hm nwins] by auto

section \<open>Facts about the quadrature estimator\<close>

lemma fl_mult_NaN [simp]: "fl_mult a NaN = NaN" "fl_mult NaN a = NaN"
  by (cases a; simp)+

lemma fl_add_NaN [simp]: "fl_add a NaN = NaN" "fl_add NaN a = NaN"
  by (cases a; simp)+



lemma length_norm [simp]:
  "length (norm_cdf xs loc scale) = length xs" "length (norm_pdf xs loc scale) = length xs"
  by (simp_all add: norm_cdf_def norm_pdf_def)


lemma length_linspace [simp]: "length (linspace a b n) = n"
  by (simp add: linspace_def)

text \<open>The product of the factors \<open>F j\<close>, as the inner loop of \<open>pwin_trapz\<close> forms it.\<close>

lemma fold_mult_length:
  "length p = n \<Longrightarrow> \<forall>j \<in> set js. length (F j) = n \<Longrightarrow>
   length (fold (\<lambda>j p. map2 fl_mult p (F j)) js p) = n"
  by (induction js arbitrary: p) simp_all







lemmas run_simps = fit_def fit_race_def fit_iter_def new_model_def getitem_def default_horse_def
  create_rating_def example_rate_def default_env_def record_of_eq Let_def

section \<open>Claims about \<open>fit_race\<close> and \<open>fit\<close>\<close>



text \<open>
  C3. When \<open>fit\<close>, started on a model with no competitor stored, returns its statistics,
  \<open>n_races\<close> is the number of races of the sequence whose selection has at least two
  members, and \<open>n_runners\<close> is the number of distinct identities in the selections of
  those races.
\<close>

theorem fit_stats:
  assumes "snd (snd (fit rate (new_model e) races)) = Inr st"
  shows "stats_n_races st = int (length (filter (\<lambda>r. 2 \<le> length (selection r)) races)) \<and>
         stats_n_runners st =
           int (card (\<Union>r \<in> set (filter (\<lambda>r. 2 \<le> length (selection r)) races). set (selection r)))"
proof -
  let ?s0 = "\<lparr>fs_ratings = [], fs_n_races = 0, fs_log = []\<rparr> :: 'a fit_state"
  let ?P = "filter (\<lambda>r. 2 \<le> length (selection r)) races"
  from assms obtain s' where
    lp: "fit_loop rate e 0 races ?s0 = (s', None)" and
    st: "st = \<lparr>stats_n_races = fs_n_races s', stats_n_runners = int (length (fs_ratings s'))\<rparr>"
    by (auto simp: fit_def new_model_def split: prod.splits option.splits)
  from fit_loop_ok [OF lp] have
    n: "fs_n_races s' = int (length ?P)" and
    k: "fst ` set (fs_ratings s') = (\<Union>r \<in> set ?P. set (selection r))" and
    d: "distinct (map fst (fs_ratings s'))"
    by simp_all
  from d have "card (set (map fst (fs_ratings s'))) = length (map fst (fs_ratings s'))"
    by (rule distinct_card)
  with k have "length (fs_ratings s') = card (\<Union>r \<in> set ?P. set (selection r))"
    by simp
  with n st show ?thesis by simp
qed

theorem fit_stats_witness:
  "snd (snd (fit example_rate (new_model default_env)
      [\<lparr>selection = [1::nat, 2], ranking = [0, 1], winners = [1]\<rparr>,
       \<lparr>selection = [3], ranking = [0], winners = [3]\<rparr>,
       \<lparr>selection = [2, 4], ranking = [1, 0], winners = [4]\<rparr>])) =
     Inr \<lparr>stats_n_races = 2, stats_n_runners = 3\<rparr> \<and>
   stats_n_races \<lparr>stats_n_races = 2, stats_n_runners = 3\<rparr> =
     int (length (filter (\<lambda>r. 2 \<le> length (selection r))
      [\<lparr>selection = [1::nat, 2], ranking = [0, 1], winners = [1]\<rparr>,
       \<lparr>selection = [3], ranking = [0], winners = [3]\<rparr>,
       \<lparr>selection = [2, 4], ranking = [1, 0], winners = [4]\<rparr>])) \<and>
   stats_n_runners \<lparr>stats_n_races = 2, stats_n_runners = 3\<rparr> =
     int (card (\<Union>r \<in> set (filter (\<lambda>r. 2 \<le> length (selection r))
      [\<lparr>selection = [1::nat, 2], ranking = [0, 1], winners = [1]\<rparr>,
       \<lparr>selection = [3], ranking = [0], winners = [3]\<rparr>,
       \<lparr>selection = [2, 4], ranking = [1, 0], winners = [4]\<rparr>]). set (selection r)))"
proof -
  let ?races = "[\<lparr>selection = [1::nat, 2], ranking = [0, 1], winners = [1]\<rparr>,
       \<lparr>selection = [3], ranking = [0], winners = [3]\<rparr>,
       \<lparr>selection = [2, 4], ranking = [1, 0], winners = [4]\<rparr>]"
  have h: "snd (snd (fit example_rate (new_model default_env) ?races)) =
      Inr \<lparr>stats_n_races = 2, stats_n_runners = 3\<rparr>"
    by (simp add: run_simps)
  from fit_stats [OF h] h show ?thesis by blast
qed

text \<open>
  C5. When the engine raises on the beliefs of a race's participants, \<open>fit_race\<close> ends
  with that exception and every identity reads the same record (belief, \<open>n_races\<close>,
  \<open>n_wins\<close>) from the store as before the call; so does the iteration of \<open>fit\<close> on a
  race with at least two participants. (A participant never seen before reads the prior
  with both counters 0 before and after; the read itself stores that default record.)
\<close>

theorem failed_rate_leaves_records:
  assumes "rate (ts hm) (map (\<lambda>r. rating (record_of (ts hm) (ratings hm) r)) (selection race))
             (ranking race) = Inl err"
    and "fs_ratings s = ratings hm"
  shows "snd (fit_race rate hm race) = Some err \<and>
         (\<forall>k. record_of (ts hm) (ratings (fst (fit_race rate hm race))) k =
               record_of (ts hm) (ratings hm) k) \<and>
         (2 \<le> length (selection race) \<longrightarrow>
            snd (fit_iter rate (ts hm) idx race s) = Some err \<and>
            (\<forall>k. record_of (ts hm) (fs_ratings (fst (fit_iter rate (ts hm) idx race s))) k =
                  record_of (ts hm) (ratings hm) k))"
  using assms by (simp add: fit_race_def fit_iter_def Let_def split_beta)

theorem failed_rate_leaves_records_witness:
  "example_rate default_env [\<lparr>mu = 2, sigma = 3\<rparr>, \<lparr>mu = 0, sigma = 8\<rparr>] [0] = Inl ValueError \<and>
   snd (fit_race example_rate
        \<lparr>ts = default_env,
         ratings = [(1, \<lparr>rating = \<lparr>mu = 2, sigma = 3\<rparr>, n_races = 4, n_wins = 1\<rparr>)]\<rparr>
        \<lparr>selection = [1::nat, 2], ranking = [0], winners = [2]\<rparr>) = Some ValueError \<and>
   (\<forall>k. record_of default_env
     (ratings (fst (fit_race example_rate
        \<lparr>ts = default_env,
         ratings = [(1, \<lparr>rating = \<lparr>mu = 2, sigma = 3\<rparr>, n_races = 4, n_wins = 1\<rparr>)]\<rparr>
        \<lparr>selection = [1::nat, 2], ranking = [0], winners = [2]\<rparr>))) k =
     record_of default_env
       [(1, \<lparr>rating = \<lparr>mu = 2, sigma = 3\<rparr>, n_races = 4, n_wins = 1\<rparr>)] k) \<and>
   snd (fit_iter example_rate default_env 0
        \<lparr>selection = [1::nat, 2], ranking = [0], winners = [2]\<rparr>
        \<lparr>fs_ratings = [(1, \<lparr>rating = \<lparr>mu = 2, sigma = 3\<rparr>, n_races = 4, n_wins = 1\<rparr>)],
         fs_n_races = 0, fs_log = []\<rparr>) = Some ValueError"
proof -
  let ?d = "[(1::nat, \<lparr>rating = \<lparr>mu = 2, sigma = 3\<rparr>, n_races = 4, n_wins = 1\<rparr>)]"
  let ?hm = "\<lparr>ts = default_env, ratings = ?d\<rparr>"
  let ?race = "\<lparr>selection = [1::nat, 2], ranking = [0], winners = [2]\<rparr>"
  let ?s = "\<lparr>fs_ratings = ?d, fs_n_races = 0, fs_log = []\<rparr>"
  have h1: "example_rate (ts ?hm)
              (map (\<lambda>r. rating (record_of (ts ?hm) (ratings ?hm) r)) (selection ?race))
              (ranking ?race) = Inl ValueError"
    by (simp add: example_rate_def)
  have h2: "fs_ratings ?s = ratings ?hm" by simp
  have e: "example_rate default_env [\<lparr>mu = 2, sigma = 3\<rparr>, \<lparr>mu = 0, sigma = 8\<rparr>] [0] = Inl ValueError"
    by (simp add: example_rate_def)
  from failed_rate_leaves_records
    [where race = ?race and hm = ?hm and rate = example_rate and err = ValueError
       and s = ?s and idx = 0] h1 h2 e
  show ?thesis by simp
qed

text \<open>
  C7. \<open>fit\<close> on a single race with two runners, the race of index 0, logs nothing,
  whatever the engine does: after the inner loop the variable \<open>i\<close> is 1.
\<close>

theorem fit_two_runners_logs_nothing:
  "fst (snd (fit rate hm [\<lparr>selection = [a, b], ranking = rk, winners = ws\<rparr>])) = []"
  by (simp add: fit_def fit_iter_def Let_def split_beta split: sum.splits option.splits prod.splits)

text \<open>
  C10. On a race with at least two participants, \<open>fit\<close> applied to the one-element
  sequence of that race and \<open>fit_race\<close> applied to the race leave the same model:
  the same hyperparameters and the same store.
\<close>

theorem fit_singleton_eq_fit_race:
  "2 \<le> length (selection race) \<Longrightarrow> fst (fit rate hm [race]) = fst (fit_race rate hm race)"
  by (auto simp: fit_def fit_race_def fit_iter_def Let_def split_beta
      split: sum.splits option.splits prod.splits)

theorem fit_singleton_eq_fit_race_witness:
  "2 \<le> length (selection \<lparr>selection = [1::nat, 2], ranking = [0, 1], winners = [1]\<rparr>) \<and>
   fst (fit example_rate (new_model default_env)
          [\<lparr>selection = [1::nat, 2], ranking = [0, 1], winners = [1]\<rparr>]) =
   fst (fit_race example_rate (new_model default_env)
          \<lparr>selection = [1::nat, 2], ranking = [0, 1], winners = [1]\<rparr>)"
  using fit_singleton_eq_fit_race
    [where race = "\<lparr>selection = [1::nat, 2], ranking = [0, 1], winners = [1]\<rparr>"
       and rate = example_rate and hm = "new_model default_env"]
  by simp

section \<open>Claim about serialisation\<close>




section \<open>Claims about \<open>pwin_mc\<close>\<close>

text \<open>
  C4. In every trial the rank computation does not raise, and the ranks it assigns are a
  permutation of \<open>0..N-1\<close> for \<open>N\<close> competitors. A competitor with a larger sample
  has a smaller rank. The rank of competitor \<open>i\<close> is at least the number of competitors
  whose sample is larger than its own and at most the number of other competitors whose
  sample is not smaller; when no other competitor has the same sample it is exactly the
  number of competitors with a larger sample, and the competitor whose sample is larger
  than every other sample has rank 0.
\<close>

theorem trial_ranks_follow_samples:
  "\<exists>ranks. ranks_of_trial col = Some ranks \<and>
     length ranks = length col \<and>
     mset ranks = mset [0..<length col] \<and>
     (\<forall>i j. i < length col \<and> j < length col \<and> col ! i < col ! j \<longrightarrow> ranks ! j < ranks ! i) \<and>
     (\<forall>i. i < length col \<longrightarrow>
        card {j. j < length col \<and> col ! i < col ! j} \<le> ranks ! i \<and>
        ranks ! i \<le> card {j. j < length col \<and> j \<noteq> i \<and> col ! i \<le> col ! j}) \<and>
     (\<forall>i. i < length col \<and> (\<forall>j. j < length col \<and> j \<noteq> i \<longrightarrow> col ! j \<noteq> col ! i) \<longrightarrow>
        ranks ! i = card {j. j < length col \<and> col ! i < col ! j}) \<and>
     (\<forall>i. i < length col \<and> (\<forall>j. j < length col \<and> j \<noteq> i \<longrightarrow> col ! j < col ! i) \<longrightarrow>
        ranks ! i = 0)"
proof -
  let ?n = "length col"
  obtain ranks where r: "ranks_of_trial col = Some ranks"
    by (simp add: ranks_of_trial_eq)
  note perm = ranks_perm [OF r] and ord = ranks_order [OF r]
  have bounds: "card {j. j < ?n \<and> col ! i < col ! j} \<le> ranks ! i \<and>
        ranks ! i \<le> card {j. j < ?n \<and> j \<noteq> i \<and> col ! i \<le> col ! j}" if i: "i < ?n" for i
  proof -
    let ?B = "{j. j < ?n \<and> ranks ! j < ranks ! i}"
    have cB: "card ?B = ranks ! i" by (rule perm_count_below [OF perm i])
    have "{j. j < ?n \<and> col ! i < col ! j} \<subseteq> ?B"
      using ord i by auto
    then have lo: "card {j. j < ?n \<and> col ! i < col ! j} \<le> card ?B"
      by (intro card_mono) auto
    have "?B \<subseteq> {j. j < ?n \<and> j \<noteq> i \<and> col ! i \<le> col ! j}"
    proof
      fix j assume "j \<in> ?B"
      then have j: "j < ?n" "ranks ! j < ranks ! i" by auto
      then have "j \<noteq> i" by auto
      moreover have "col ! i \<le> col ! j"
      proof (rule ccontr)
        assume "\<not> col ! i \<le> col ! j"
        then have "col ! j < col ! i" by simp
        from ord [OF j(1) i this] j(2) show False by simp
      qed
      ultimately show "j \<in> {j. j < ?n \<and> j \<noteq> i \<and> col ! i \<le> col ! j}" using j(1) by simp
    qed
    then have hi: "card ?B \<le> card {j. j < ?n \<and> j \<noteq> i \<and> col ! i \<le> col ! j}"
      by (intro card_mono) auto
    from lo hi cB show ?thesis by simp
  qed
  have untied: "ranks ! i = card {j. j < ?n \<and> col ! i < col ! j}"
    if i: "i < ?n" and nt: "\<forall>j. j < ?n \<and> j \<noteq> i \<longrightarrow> col ! j \<noteq> col ! i" for i
  proof -
    from nt have "{j. j < ?n \<and> j \<noteq> i \<and> col ! i \<le> col ! j} = {j. j < ?n \<and> col ! i < col ! j}"
      by (auto simp: less_le)
    with bounds [OF i] show ?thesis by simp
  qed
  have top: "ranks ! i = 0"
    if i: "i < ?n" and hi: "\<forall>j. j < ?n \<and> j \<noteq> i \<longrightarrow> col ! j < col ! i" for i
  proof -
    from hi have "{j. j < ?n \<and> j \<noteq> i \<and> col ! i \<le> col ! j} = {}" by auto
    with bounds [OF i] show ?thesis by simp
  qed
  from r ranks_length [OF r] perm ord bounds untied top show ?thesis
    by blast
qed

theorem trial_ranks_follow_samples_witness:
  "ranks_of_trial [1, 3, 2] = Some [2, 0, 1] \<and>
   mset [2, 0, 1::nat] = mset [0..<length [1, 3, 2::real]] \<and>
   [1, 3, 2::real] ! 0 < [1, 3, 2] ! 1 \<and> [1, 3, 2::real] ! 2 < [1, 3, 2] ! 1 \<and>
   [2, 0, 1::nat] ! 1 = 0"
proof -
  let ?col = "[1, 3, 2::real]"
  have ev: "ranks_of_trial ?col = Some [2, 0, 1]" by code_simp
  from trial_ranks_follow_samples [of ?col] obtain ranks where
    r: "ranks_of_trial ?col = Some ranks" and
    p: "mset ranks = mset [0..<length ?col]" and
    top: "\<forall>i. i < length ?col \<and> (\<forall>j. j < length ?col \<and> j \<noteq> i \<longrightarrow> ?col ! j < ?col ! i) \<longrightarrow>
            ranks ! i = 0"
    by blast
  from r ev have eq: "ranks = [2, 0, 1]" by simp
  have h: "\<forall>j. j < length ?col \<and> j \<noteq> 1 \<longrightarrow> ?col ! j < ?col ! 1"
    by (auto simp: less_Suc_eq)
  have "(1::nat) < length ?col" by simp
  with top h have "ranks ! 1 = 0" by blast
  with ev p eq show ?thesis by simp
qed

text \<open>
  C8. With at least one trial, \<open>pwin_mc\<close> returns one number per runner, each in
  \<open>[0, 1]\<close>, for every \<open>nwins\<close>; for \<open>nwins = 1\<close> and a non-empty list of runners
  the numbers sum to 1. For the empty list of runners the result is the empty vector,
  whose sum is 0.
\<close>

theorem pwin_mc_probabilities:
  assumes "0 < N"
  shows "\<exists>v. fst (pwin_mc_with N randn hm runners nwins True) = Inr v \<and>
           length v = length runners \<and>
           (\<forall>x \<in> set v. 0 \<le> x \<and> x \<le> 1) \<and>
           (nwins = 1 \<and> runners \<noteq> [] \<longrightarrow> sum_list v = 1)"
proof -
  let ?n = "length runners"
  from pwin_mc_with_ranks [of N runners randn hm nwins] obtain ranks where
    len: "length ranks = N" and
    perm: "\<forall>rk \<in> set ranks. mset rk = mset [0..<?n]" and
    res: "fst (pwin_mc_with N randn hm runners nwins True) =
       Inr (map (\<lambda>i. real (length (filter (\<lambda>rk. int (rk ! i) < nwins) ranks)) / real N) [0..<?n])"
    by blast
  let ?v = "map (\<lambda>i. real (length (filter (\<lambda>rk. int (rk ! i) < nwins) ranks)) / real N) [0..<?n]"
  have bound: "0 \<le> x \<and> x \<le> 1" if "x \<in> set ?v" for x
  proof -
    from that obtain i where x: "x = real (length (filter (\<lambda>rk. int (rk ! i) < nwins) ranks)) / real N"
      by auto
    have "length (filter (\<lambda>rk. int (rk ! i) < nwins) ranks) \<le> N"
      using length_filter_le [of _ ranks] len by simp
    with assms x show ?thesis by simp
  qed
  have total: "sum_list ?v = 1" if nw: "nwins = 1" and ne: "runners \<noteq> []"
  proof -
    from ne have n: "0 < ?n" by simp
    have z: "(int (rk ! i) < 1) = (rk ! i = 0)" for rk :: "nat list" and i by auto
    have "sum_list (map (\<lambda>i. length (filter (\<lambda>rk. rk ! i = 0) ranks)) [0..<?n]) =
          sum_list (map (\<lambda>rk. length (filter (\<lambda>i. rk ! i = 0) [0..<?n])) ranks)"
      by (rule count_swap)
    also have "\<dots> = sum_list (map (\<lambda>rk. 1) ranks)"
      using perm n by (intro arg_cong [where f = sum_list] map_cong) (auto simp: one_winner)
    also have "\<dots> = N" using len by (simp add: sum_list_triv)
    finally have cnt: "sum_list (map (\<lambda>i. length (filter (\<lambda>rk. rk ! i = 0) ranks)) [0..<?n]) = N" .
    have "sum_list ?v =
          sum_list (map (\<lambda>i. real (length (filter (\<lambda>rk. rk ! i = 0) ranks)) / real N) [0..<?n])"
      by (simp add: nw z)
    also have "\<dots> = real (sum_list (map (\<lambda>i. length (filter (\<lambda>rk. rk ! i = 0) ranks)) [0..<?n])) / real N"
      by (simp only: sum_list_divide sum_list_real)
    finally show ?thesis using cnt assms by simp
  qed
  from res bound total show ?thesis by auto
qed

theorem pwin_mc_probabilities_witness:
  "(0::nat) < 2 \<and>
   fst (pwin_mc_with 2 (\<lambda>i t. if i = t then 1 else 0) (new_model default_env) [1::nat, 2] 1 True) =
     Inr [1 / 2, 1 / 2] \<and>
   length [1 / 2, 1 / 2 :: real] = length [1::nat, 2] \<and>
   sum_list [1 / 2, 1 / 2 :: real] = 1"
proof -
  have ev: "fst (pwin_mc_with 2 (\<lambda>i t. if i = t then 1 else 0) (new_model default_env)
              [1::nat, 2] 1 True) = Inr [1 / 2, 1 / 2]"
    by code_simp
  from pwin_mc_probabilities
    [where N = 2 and randn = "\<lambda>i t. if i = t then 1 else 0" and hm = "new_model default_env"
       and runners = "[1::nat, 2]" and nwins = 1] ev
  show ?thesis by simp
qed

theorem pwin_mc_no_runners_sum:
  "fst (pwin_mc (\<lambda>i t. 0) (new_model default_env) ([] :: nat list) 1 True) = Inr [] \<and>
   sum_list ([] :: real list) \<noteq> 1"
  by (simp add: pwin_mc_def pwin_mc_with_no_runners)

section \<open>Claim about \<open>pwin_trapz\<close>\<close>




end
